theory Spec2Isabelle
  imports Main "HOL-Library.Word"
begin

section \<open>Data model of \<^verbatim>\<open>cachehash.c\<close>\<close>

text \<open>
  Keys are byte buffers, sizes are \<^verbatim>\<open>size_t\<close> (64 bit), callbacks are function
  pointers. A key argument \<^verbatim>\<open>(void *key, size_t keylen)\<close> is the buffer's contents,
  or \<open>None\<close> for a NULL pointer; \<^verbatim>\<open>keylen\<close> is the length of the list.
\<close>

type_synonym bytes = "8 word list"
type_synonym size_t = "64 word"
type_synonym fnptr = nat
type_synonym keyarg = "bytes option"

text \<open>
  Pointers. The code converts between \<^verbatim>\<open>void *\<close>, \<^verbatim>\<open>Word_t\<close> and \<^verbatim>\<open>node_t *\<close>
  freely, so there is one pointer type: NULL, the address \<^verbatim>\<open>&nodes[i]\<close> relative to the
  arena (\<open>i\<close> may lie outside the arena, as \<^verbatim>\<open>&nodes[maxitems-2]\<close> does for one slot),
  or the address of an object of the caller.
\<close>

datatype ptr = Null | NodeP int | Ext nat

text \<open>How a call ends when it does not return: a failed \<^verbatim>\<open>assert\<close>, a read or write
  through NULL, a read or write through a pointer that is no slot of the arena, and the
  overflow of the \<^verbatim>\<open>int\<close> loop counter of \<^verbatim>\<open>cachehash_init\<close>.\<close>

datatype error = AssertFail | NullDeref | BadDeref | IntOverflow

record node =
  "next" :: ptr
  prev :: ptr
  key :: "bytes option"
  keylen :: nat
  data :: ptr

record cachehash =
  judy :: "(bytes \<rightharpoonup> ptr) option"
  malloced :: "node list"
  start :: ptr
  "end" :: ptr
  maxsize :: size_t
  currsize :: size_t
  evict_cb :: "fnptr option"

text \<open>A callback invocation: the function called and its argument.\<close>

type_synonym call = "fnptr \<times> ptr"

definition bindE :: "error + 'a \<Rightarrow> ('a \<Rightarrow> error + 'b) \<Rightarrow> error + 'b" where
  "bindE m f = (case m of Inl e \<Rightarrow> Inl e | Inr x \<Rightarrow> f x)"

subsection \<open>Reading and writing a slot through a pointer\<close>

definition node_at :: "cachehash \<Rightarrow> ptr \<Rightarrow> error + node" where
  "node_at ch p =
     (case p of
        Null \<Rightarrow> Inl NullDeref
      | Ext a \<Rightarrow> Inl BadDeref
      | NodeP i \<Rightarrow>
          if 0 \<le> i \<and> i < int (length (malloced ch))
          then Inr (malloced ch ! nat i) else Inl BadDeref)"

definition node_upd :: "cachehash \<Rightarrow> ptr \<Rightarrow> (node \<Rightarrow> node) \<Rightarrow> error + cachehash" where
  "node_upd ch p f =
     (case p of
        Null \<Rightarrow> Inl NullDeref
      | Ext a \<Rightarrow> Inl BadDeref
      | NodeP i \<Rightarrow>
          if 0 \<le> i \<and> i < int (length (malloced ch))
          then Inr (ch\<lparr>malloced := (malloced ch)[nat i := f (malloced ch ! nat i)]\<rparr>)
          else Inl BadDeref)"

subsection \<open>The JudyHS macros\<close>

text \<open>
  Judy is an external library. Its array is a map from byte strings to one word each, named
  by a root pointer that the macros update in place in the variable they are given.
  \<^verbatim>\<open>JHSG\<close> yields the address of the word of a key, or NULL when the key is absent;
  \<^verbatim>\<open>JHSI\<close> yields the address of the word, after adding the key with the word 0 when it
  is absent; \<^verbatim>\<open>JHSD\<close> removes a key and yields 1, or yields 0 when the key is absent.
\<close>

definition JHSG :: "(bytes \<rightharpoonup> ptr) \<Rightarrow> bytes \<Rightarrow> ptr option" where
  "JHSG j k = j k"

definition JHSI :: "(bytes \<rightharpoonup> ptr) \<Rightarrow> bytes \<Rightarrow> ptr \<times> (bytes \<rightharpoonup> ptr)" where
  "JHSI j k = (case j k of Some w \<Rightarrow> (w, j) | None \<Rightarrow> (Null, j(k \<mapsto> Null)))"

definition JHSD :: "(bytes \<rightharpoonup> ptr) \<Rightarrow> bytes \<Rightarrow> bool \<times> (bytes \<rightharpoonup> ptr)" where
  "JHSD j k = (if j k = None then (False, j) else (True, j(k := None)))"

text \<open>The key a slot holds: \<^verbatim>\<open>keylen\<close> bytes at \<^verbatim>\<open>key\<close>; a NULL key has length 0.\<close>

definition node_key :: "node \<Rightarrow> bytes" where
  "node_key nd = (case key nd of None \<Rightarrow> [] | Some bs \<Rightarrow> take (keylen nd) bs)"

section \<open>The operations\<close>

definition EVICTION_NEEDED :: int where "EVICTION_NEEDED = 1"
definition EVICTION_UNNEC :: int where "EVICTION_UNNEC = 0"

text \<open>\<^verbatim>\<open>calloc\<close> zeroes every slot; then the first, the middle and the last slot are
  linked, in this order.\<close>

definition zero_node :: node where
  "zero_node = \<lparr>next = Null, prev = Null, key = None, keylen = 0, data = Null\<rparr>"

definition link_nodes :: "nat \<Rightarrow> node list" where
  "link_nodes m =
     (let ns0 = replicate m zero_node;
          ns1 = ns0[0 := (ns0 ! 0)\<lparr>next := NodeP 1\<rparr>];
          ns2 = fold (\<lambda>i ns. ns[i := (ns ! i)\<lparr>prev := NodeP (int i - 1),
                                                next := NodeP (int i + 1)\<rparr>])
                     [1 ..< m - 1] ns1
      in ns2[m - 1 := (ns2 ! (m - 1))\<lparr>prev := NodeP (int m - 2)\<rparr>])"

text \<open>
  \<^verbatim>\<open>cachehash_init\<close>: \<^verbatim>\<open>memset\<close> zeroes the structure, and the function then sets
  \<^verbatim>\<open>malloced\<close>, \<^verbatim>\<open>start\<close>, \<^verbatim>\<open>end\<close>, \<^verbatim>\<open>maxsize\<close> and \<^verbatim>\<open>currsize\<close>. It assigns neither
  \<^verbatim>\<open>judy\<close> nor \<^verbatim>\<open>evict_cb\<close>, which stay NULL; the parameter \<^verbatim>\<open>cb\<close> is not used.
  Allocation is taken to succeed. The loop counter is an \<^verbatim>\<open>int\<close>, which has to reach
  \<^verbatim>\<open>maxitems - 1\<close> for the loop to end.
\<close>

definition cachehash_init :: "size_t \<Rightarrow> fnptr option \<Rightarrow> error + cachehash" where
  "cachehash_init maxitems cb =
     (if \<not> 0 < maxitems then Inl AssertFail
      else if 2147483647 < unat maxitems - 1 then Inl IntOverflow
      else Inr \<lparr>judy = None,
                malloced = link_nodes (unat maxitems),
                start = NodeP 0,
                end = NodeP (int (unat maxitems) - 1),
                maxsize = maxitems,
                currsize = 0,
                evict_cb = None\<rparr>)"

definition eviction_needed :: "cachehash \<Rightarrow> int" where
  "eviction_needed ch = (if currsize ch = maxsize ch then 1 else 0)"

definition evict :: "cachehash \<Rightarrow> error + (ptr \<times> cachehash)" where
  "evict ch =
     (let last = end ch in
      case judy ch of
        None \<Rightarrow> Inl NullDeref
      | Some j \<Rightarrow>
          bindE (node_at ch last) (\<lambda>nd.
            let (rc, j') = JHSD j (node_key nd) in
            if \<not> rc then Inl AssertFail
            else
              let ch1 = ch\<lparr>judy := Some j'\<rparr>;
                  retv = data nd
              in bindE (node_upd ch1 last (\<lambda>n. n\<lparr>data := Null, key := None, keylen := 0\<rparr>))
                   (\<lambda>ch2. Inr (retv, ch2\<lparr>currsize := currsize ch2 - 1\<rparr>))))"

text \<open>\<^verbatim>\<open>use\<close> moves a slot to the front. The old first slot's \<^verbatim>\<open>prev\<close> is not written.\<close>

definition use :: "cachehash \<Rightarrow> ptr \<Rightarrow> error + cachehash" where
  "use ch n =
     (if n = Null then Inl AssertFail
      else
        bindE (node_at ch n) (\<lambda>nd.
          if prev nd = Null then Inr ch
          else
            let p = prev nd in
            bindE (node_upd ch p (\<lambda>x. x\<lparr>next := next nd\<rparr>)) (\<lambda>ch1.
            bindE (node_at ch1 n) (\<lambda>nd1.
            bindE (if next nd1 \<noteq> Null
                   then node_upd ch1 (next nd1) (\<lambda>x. x\<lparr>prev := p\<rparr>)
                   else Inr (ch1\<lparr>end := p\<rparr>)) (\<lambda>ch2.
            bindE (node_upd ch2 n (\<lambda>x. x\<lparr>next := start ch2\<rparr>)) (\<lambda>ch3.
            node_upd (ch3\<lparr>start := n\<rparr>) n (\<lambda>x. x\<lparr>prev := Null\<rparr>)))))))"

text \<open>\<^verbatim>\<open>judy_get\<close> reads the word that \<^verbatim>\<open>JHSG\<close> points to, also when that is NULL.\<close>

definition judy_get :: "cachehash \<Rightarrow> keyarg \<Rightarrow> error + (ptr \<times> cachehash)" where
  "judy_get ch k =
     (case k of
        None \<Rightarrow> Inl AssertFail
      | Some bs \<Rightarrow>
          if length bs = 0 then Inl AssertFail
          else
            (case judy ch of
               None \<Rightarrow> Inl NullDeref
             | Some j \<Rightarrow>
                 let pv = JHSG j bs;
                     ch1 = ch\<lparr>judy := Some j\<rparr>
                 in (case pv of None \<Rightarrow> Inl NullDeref | Some w \<Rightarrow> Inr (w, ch1))))"

definition cachehash_has :: "cachehash \<Rightarrow> keyarg \<Rightarrow> error + (ptr \<times> cachehash)" where
  "cachehash_has ch k =
     (case k of
        None \<Rightarrow> Inl AssertFail
      | Some bs \<Rightarrow>
          if length bs = 0 then Inl AssertFail
          else
            bindE (judy_get ch k) (\<lambda>(n, ch1).
              if n \<noteq> Null then bindE (node_at ch1 n) (\<lambda>nd. Inr (data nd, ch1))
              else Inr (Null, ch1)))"

definition cachehash_get :: "cachehash \<Rightarrow> keyarg \<Rightarrow> error + (ptr \<times> cachehash)" where
  "cachehash_get ch k =
     (case k of
        None \<Rightarrow> Inl AssertFail
      | Some bs \<Rightarrow>
          if length bs = 0 then Inl AssertFail
          else
            bindE (judy_get ch k) (\<lambda>(n, ch1).
              if n \<noteq> Null
              then bindE (use ch1 n) (\<lambda>ch2.
                   bindE (node_at ch2 n) (\<lambda>nd. Inr (data nd, ch2)))
              else Inr (Null, ch1)))"

definition cachehash_evict_if_full :: "cachehash \<Rightarrow> error + (ptr \<times> cachehash)" where
  "cachehash_evict_if_full ch =
     (if eviction_needed ch = EVICTION_UNNEC then Inr (Null, ch) else evict ch)"

text \<open>
  \<^verbatim>\<open>cachehash_put\<close>. The array root is copied into the local \<^verbatim>\<open>j\<close>; \<^verbatim>\<open>JHSI\<close> and the
  store through \<^verbatim>\<open>v_\<close> (\<open>pv\<close> below) update the array named by \<^verbatim>\<open>j\<close> (\<open>j1\<close>, \<open>j2\<close>),
  and the function ends: unlike \<^verbatim>\<open>evict\<close> and \<^verbatim>\<open>judy_get\<close>, it has no
  \<^verbatim>\<open>*ch->judy = j\<close>, so the cache keeps the root it had. For the empty array, whose
  root is NULL, this is exact: the insertion makes a new root, which only \<^verbatim>\<open>j\<close> receives.
  The word stored is \<^verbatim>\<open>value\<close>, not the address of the slot. The result is the new state
  and the callback invocations made.
\<close>

definition cachehash_put :: "cachehash \<Rightarrow> keyarg \<Rightarrow> ptr \<Rightarrow> error + (cachehash \<times> call list)" where
  "cachehash_put ch k v =
     (case k of
        None \<Rightarrow> Inl AssertFail
      | Some bs \<Rightarrow>
          if length bs = 0 then Inl AssertFail
          else
            bindE (cachehash_evict_if_full ch) (\<lambda>(evicted, ch1).
              let calls = (case evict_cb ch1 of
                             Some f \<Rightarrow> if evicted \<noteq> Null then [(f, evicted)] else []
                           | None \<Rightarrow> []);
                  n = end ch1
              in bindE (node_upd ch1 n (\<lambda>x. x\<lparr>key := Some bs, keylen := length bs, data := v\<rparr>))
                   (\<lambda>ch2.
                 bindE (use ch2 n) (\<lambda>ch3.
                   let ch4 = ch3\<lparr>currsize := currsize ch3 + 1\<rparr> in
                   (case judy ch4 of
                      None \<Rightarrow> Inl NullDeref
                    | Some j \<Rightarrow>
                        let (pv, j1) = JHSI j bs in
                        if pv \<noteq> Null then Inl AssertFail
                        else
                          let j2 = j1(bs \<mapsto> v) in Inr (ch4, calls))))))"

text \<open>
  \<^verbatim>\<open>cachehash_free\<close>. The loop \<^verbatim>\<open>while (n->next)\<close> follows pointers and need not end on
  a cyclic list, so it takes fuel: \<open>None\<close> is a loop that has not ended within the fuel.
  The result is the list of callback invocations; the model does not follow which key
  buffers have been released.
\<close>

fun free_loop :: "nat \<Rightarrow> cachehash \<Rightarrow> ptr \<Rightarrow> fnptr option \<Rightarrow> (error + call list) option" where
  "free_loop 0 ch n cb = None"
| "free_loop (Suc fuel) ch n cb =
     (case node_at ch n of
        Inl e \<Rightarrow> Some (Inl e)
      | Inr nd \<Rightarrow>
          if next nd \<noteq> Null
          then
            (let calls = (if key nd \<noteq> None
                          then (case cb of Some f \<Rightarrow> [(f, data nd)] | None \<Rightarrow> [])
                          else [])
             in case free_loop fuel ch (next nd) cb of
                  None \<Rightarrow> None
                | Some (Inl e) \<Rightarrow> Some (Inl e)
                | Some (Inr cs) \<Rightarrow> Some (Inr (calls @ cs)))
          else Some (Inr []))"

definition cachehash_free :: "nat \<Rightarrow> cachehash \<Rightarrow> fnptr option \<Rightarrow> (error + call list) option" where
  "cachehash_free fuel ch cb =
     (case judy ch of
        None \<Rightarrow> Some (Inl NullDeref)
      | Some j \<Rightarrow> free_loop fuel ch (start ch) cb)"

subsection \<open>Sequences of operations\<close>

datatype op = Has keyarg | Get keyarg | Put keyarg ptr | EvictIfFull

fun step :: "cachehash \<Rightarrow> op \<Rightarrow> error + cachehash" where
  "step ch (Has k) = bindE (cachehash_has ch k) (\<lambda>(v, ch'). Inr ch')"
| "step ch (Get k) = bindE (cachehash_get ch k) (\<lambda>(v, ch'). Inr ch')"
| "step ch (Put k v) = bindE (cachehash_put ch k v) (\<lambda>(ch', cs). Inr ch')"
| "step ch EvictIfFull = bindE (cachehash_evict_if_full ch) (\<lambda>(v, ch'). Inr ch')"

fun run :: "cachehash \<Rightarrow> op list \<Rightarrow> error + cachehash" where
  "run ch [] = Inr ch"
| "run ch (x # xs) = bindE (step ch x) (\<lambda>ch'. run ch' xs)"

subsection \<open>Sample states\<close>

text \<open>
  \<open>with_index\<close> is a state whose cell for the array root exists and holds the empty
  array. \<^verbatim>\<open>cachehash_init\<close> returns no such state; it serves to follow the operations
  beyond their first read of \<^verbatim>\<open>*ch->judy\<close>.
\<close>

definition with_index :: "cachehash \<Rightarrow> cachehash" where
  "with_index ch = ch\<lparr>judy := Some Map.empty\<rparr>"

text \<open>\<open>fresh2\<close> is the state that \<^verbatim>\<open>cachehash_init\<close> returns for two slots.\<close>

definition fresh2 :: cachehash where
  "fresh2 =
     \<lparr>judy = None,
      malloced = [\<lparr>next = NodeP 1, prev = Null, key = None, keylen = 0, data = Null\<rparr>,
                  \<lparr>next = Null, prev = NodeP 0, key = None, keylen = 0, data = Null\<rparr>],
      start = NodeP 0,
      end = NodeP 1,
      maxsize = 2,
      currsize = 0,
      evict_cb = None\<rparr>"

text \<open>
  \<open>full2\<close> is a full cache of two slots in which the list is doubly linked and the array
  maps each key to its slot: slot 1 (key 1, value 10) is first, slot 0 (key 2, value 20)
  is last.
\<close>

definition full2 :: cachehash where
  "full2 =
     \<lparr>judy = Some [[1] \<mapsto> NodeP 1, [2] \<mapsto> NodeP 0],
      malloced = [\<lparr>next = Null, prev = NodeP 1, key = Some [2], keylen = 1, data = Ext 20\<rparr>,
                  \<lparr>next = NodeP 0, prev = Null, key = Some [1], keylen = 1, data = Ext 10\<rparr>],
      start = NodeP 1,
      end = NodeP 0,
      maxsize = 2,
      currsize = 2,
      evict_cb = None\<rparr>"

subsection \<open>Sessions\<close>

text \<open>
  A session creates a cache and runs operations on it. \<open>session_indexed\<close> does the same
  on \<open>with_index\<close> of the created cache. \<open>free_after\<close> ends a session with
  \<^verbatim>\<open>cachehash_free\<close>.
\<close>

definition session :: "size_t \<Rightarrow> fnptr option \<Rightarrow> op list \<Rightarrow> error + cachehash" where
  "session n cb ops = bindE (cachehash_init n cb) (\<lambda>ch. run ch ops)"

definition session_indexed :: "size_t \<Rightarrow> fnptr option \<Rightarrow> op list \<Rightarrow> error + cachehash" where
  "session_indexed n cb ops = bindE (cachehash_init n cb) (\<lambda>ch. run (with_index ch) ops)"

definition free_after ::
  "nat \<Rightarrow> error + cachehash \<Rightarrow> fnptr option \<Rightarrow> (error + call list) option" where
  "free_after fuel s cb =
     (case s of Inl e \<Rightarrow> Some (Inl e) | Inr ch \<Rightarrow> cachehash_free fuel ch cb)"

section \<open>Basic facts\<close>

lemma bindE_Inl [simp]: "bindE (Inl e) f = Inl e"
  by (simp add: bindE_def)

lemma bindE_Inr [simp]: "bindE (Inr x) f = f x"
  by (simp add: bindE_def)

lemma link_nodes_1:
  "link_nodes 1 = [\<lparr>next = NodeP 1, prev = NodeP (- 1), key = None, keylen = 0, data = Null\<rparr>]"
  by (simp add: link_nodes_def zero_node_def)

lemma link_nodes_2:
  "link_nodes 2 =
     [\<lparr>next = NodeP 1, prev = Null, key = None, keylen = 0, data = Null\<rparr>,
      \<lparr>next = Null, prev = NodeP 0, key = None, keylen = 0, data = Null\<rparr>]"
  by (simp add: link_nodes_def zero_node_def eval_nat_numeral)

lemma link_nodes_3:
  "link_nodes 3 =
     [\<lparr>next = NodeP 1, prev = Null, key = None, keylen = 0, data = Null\<rparr>,
      \<lparr>next = NodeP 2, prev = NodeP 0, key = None, keylen = 0, data = Null\<rparr>,
      \<lparr>next = Null, prev = NodeP 1, key = None, keylen = 0, data = Null\<rparr>]"
  by (simp add: link_nodes_def zero_node_def eval_nat_numeral)

lemmas op_defs =
  cachehash_put_def cachehash_get_def cachehash_has_def cachehash_evict_if_full_def
  eviction_needed_def EVICTION_UNNEC_def evict_def use_def judy_get_def
  node_at_def node_upd_def node_key_def JHSG_def JHSI_def JHSD_def Let_def

lemma init_2: "cachehash_init 2 cb = Inr fresh2"
  by (simp add: cachehash_init_def fresh2_def link_nodes_2)

lemma init_3:
  "cachehash_init 3 cb =
     Inr \<lparr>judy = None, malloced = link_nodes 3, start = NodeP 0, end = NodeP 2,
          maxsize = 3, currsize = 0, evict_cb = None\<rparr>"
  by (simp add: cachehash_init_def)

lemmas eval_defs =
  session_def session_indexed_def free_after_def with_index_def init_2 init_3 link_nodes_3
  fresh2_def full2_def cachehash_free_def op_defs

lemma bindE_Inr_iff: "bindE m f = Inr y \<longleftrightarrow> (\<exists>x. m = Inr x \<and> f x = Inr y)"
  by (cases m) simp_all

subsection \<open>What each operation does to the state and to the two sizes\<close>

lemma judy_get_state: "judy_get ch k = Inr (n, ch') \<Longrightarrow> ch' = ch"
  by (auto simp: judy_get_def Let_def split: option.splits if_splits)

lemma has_state: "cachehash_has ch k = Inr (v, ch') \<Longrightarrow> ch' = ch"
  by (auto simp: cachehash_has_def bindE_Inr_iff dest: judy_get_state
           split: option.splits if_splits)

lemma run_has: "run ch (replicate n (Has k)) = Inr ch' \<Longrightarrow> ch' = ch"
proof (induction n arbitrary: ch)
  case 0
  then show ?case by simp
next
  case (Suc n)
  then show ?case
    by (auto simp: bindE_Inr_iff dest: has_state)
qed

lemma node_upd_sizes:
  "node_upd ch p f = Inr ch' \<Longrightarrow> currsize ch' = currsize ch \<and> maxsize ch' = maxsize ch"
  by (auto simp: node_upd_def split: ptr.splits if_splits)

lemma use_sizes:
  "use ch n = Inr ch' \<Longrightarrow> currsize ch' = currsize ch \<and> maxsize ch' = maxsize ch"
  by (auto simp: use_def Let_def bindE_Inr_iff dest!: node_upd_sizes split: if_splits)

lemma evict_sizes:
  "evict ch = Inr (v, ch') \<Longrightarrow> currsize ch' = currsize ch - 1 \<and> maxsize ch' = maxsize ch"
  by (auto simp: evict_def JHSD_def Let_def bindE_Inr_iff dest!: node_upd_sizes
           split: option.splits if_splits)

lemma get_sizes:
  "cachehash_get ch k = Inr (v, ch') \<Longrightarrow>
     currsize ch' = currsize ch \<and> maxsize ch' = maxsize ch"
  by (auto simp: cachehash_get_def bindE_Inr_iff dest!: judy_get_state use_sizes
           split: option.splits if_splits)

lemma evict_if_full_sizes:
  "cachehash_evict_if_full ch = Inr (v, ch') \<Longrightarrow>
     maxsize ch' = maxsize ch \<and>
     currsize ch' = (if currsize ch = maxsize ch then currsize ch - 1 else currsize ch)"
  by (auto simp: cachehash_evict_if_full_def eviction_needed_def EVICTION_UNNEC_def
           dest!: evict_sizes split: if_splits)

text \<open>The steps of a \<^verbatim>\<open>cachehash_put\<close> that returns.\<close>

lemma put_steps:
  assumes a: "cachehash_put ch k v = Inr (ch', cs)"
  shows "\<exists>e ch1 ch2 ch3.
           cachehash_evict_if_full ch = Inr (e, ch1) \<and>
           node_upd ch1 (end ch1)
             (\<lambda>x. x\<lparr>key := k, keylen := length (the k), data := v\<rparr>) = Inr ch2 \<and>
           use ch2 (end ch1) = Inr ch3 \<and>
           judy ch3 \<noteq> None \<and>
           ch' = ch3\<lparr>currsize := currsize ch3 + 1\<rparr>"
proof -
  obtain bs where k: "k = Some bs" and bs: "bs \<noteq> []"
    using a by (cases k) (auto simp: cachehash_put_def split: if_splits)
  obtain e ch1 where e: "cachehash_evict_if_full ch = Inr (e, ch1)"
    using a k bs by (cases "cachehash_evict_if_full ch") (auto simp: cachehash_put_def)
  obtain ch2 where u:
    "node_upd ch1 (end ch1) (\<lambda>x. x\<lparr>key := Some bs, keylen := length bs, data := v\<rparr>) = Inr ch2"
    using a k bs e
    by (cases "node_upd ch1 (end ch1)
                 (\<lambda>x. x\<lparr>key := Some bs, keylen := length bs, data := v\<rparr>)")
       (auto simp: cachehash_put_def Let_def)
  obtain ch3 where s: "use ch2 (end ch1) = Inr ch3"
    using a k bs e u by (cases "use ch2 (end ch1)") (auto simp: cachehash_put_def Let_def)
  have "judy ch3 \<noteq> None \<and> ch' = ch3\<lparr>currsize := currsize ch3 + 1\<rparr>"
    using a k bs e u s
    by (auto simp: cachehash_put_def JHSI_def Let_def split: option.splits if_splits)
  with e u s k show ?thesis by auto
qed

lemma put_sizes:
  assumes a: "cachehash_put ch k v = Inr (ch', cs)"
  shows "maxsize ch' = maxsize ch \<and>
     currsize ch' = (if currsize ch = maxsize ch then currsize ch - 1 else currsize ch) + 1"
proof -
  from put_steps [OF a] obtain e ch1 ch2 ch3 where
    e: "cachehash_evict_if_full ch = Inr (e, ch1)" and
    u: "node_upd ch1 (end ch1)
          (\<lambda>x. x\<lparr>key := k, keylen := length (the k), data := v\<rparr>) = Inr ch2" and
    s: "use ch2 (end ch1) = Inr ch3" and
    c: "ch' = ch3\<lparr>currsize := currsize ch3 + 1\<rparr>"
    by blast
  show ?thesis
    using evict_if_full_sizes [OF e] node_upd_sizes [OF u] use_sizes [OF s] c by simp
qed

lemma word_dec_le: "0 < (m::64 word) \<Longrightarrow> m - 1 \<le> m"
  by (simp add: word_le_nat_alt unat_minus_one word_neq_0_conv [symmetric] unat_gt_0)

lemma word_inc_le: "(c::64 word) \<le> m \<Longrightarrow> c \<noteq> m \<Longrightarrow> c + 1 \<le> m"
  by (simp add: inc_le)

lemma step_sizes:
  assumes "0 < maxsize ch" and "currsize ch \<le> maxsize ch" and "step ch x = Inr ch'"
  shows "currsize ch' \<le> maxsize ch' \<and> maxsize ch' = maxsize ch"
proof (cases x)
  case (Has k)
  with assms show ?thesis
    by (auto simp: bindE_Inr_iff dest: has_state)
next
  case (Get k)
  with assms show ?thesis
    by (auto simp: bindE_Inr_iff dest: get_sizes)
next
  case (Put k v)
  with assms obtain cs where "cachehash_put ch k v = Inr (ch', cs)"
    by (auto simp: bindE_Inr_iff)
  from put_sizes [OF this] assms show ?thesis
    by (auto simp: word_inc_le)
next
  case EvictIfFull
  with assms obtain v where "cachehash_evict_if_full ch = Inr (v, ch')"
    by (auto simp: bindE_Inr_iff)
  from evict_if_full_sizes [OF this] assms show ?thesis
    by (auto simp: word_dec_le)
qed

lemma run_sizes:
  "0 < maxsize ch \<Longrightarrow> currsize ch \<le> maxsize ch \<Longrightarrow> run ch ops = Inr ch' \<Longrightarrow>
     currsize ch' \<le> maxsize ch' \<and> maxsize ch' = maxsize ch"
proof (induction ops arbitrary: ch)
  case Nil
  then show ?case by simp
next
  case (Cons x xs)
  from Cons.prems obtain c where c: "step ch x = Inr c" and r: "run c xs = Inr ch'"
    by (auto simp: bindE_Inr_iff)
  from step_sizes [OF Cons.prems(1,2) c]
  have "0 < maxsize c" "currsize c \<le> maxsize c" "maxsize c = maxsize ch"
    using Cons.prems(1) by auto
  with Cons.IH [OF _ _ r] show ?case by auto
qed

lemma init_sizes:
  "cachehash_init n cb = Inr ch \<Longrightarrow> maxsize ch = n \<and> currsize ch = 0 \<and> 0 < n"
  by (auto simp: cachehash_init_def split: if_splits)

subsection \<open>A created cache has no array and no callback\<close>

lemma init_leaves_null:
  "cachehash_init n cb = Inr ch \<Longrightarrow> judy ch = None \<and> evict_cb ch = None"
  by (auto simp: cachehash_init_def split: if_splits)

lemma node_upd_judy:
  "node_upd ch p f = Inr ch' \<Longrightarrow> judy ch' = judy ch \<and> evict_cb ch' = evict_cb ch"
  by (auto simp: node_upd_def split: ptr.splits if_splits)

lemma use_judy: "use ch n = Inr ch' \<Longrightarrow> judy ch' = judy ch \<and> evict_cb ch' = evict_cb ch"
  by (auto simp: use_def Let_def bindE_Inr_iff dest!: node_upd_judy split: if_splits)

lemma evict_if_full_no_index:
  "judy ch = None \<Longrightarrow> cachehash_evict_if_full ch = Inr (v, ch') \<Longrightarrow> ch' = ch"
  by (auto simp: cachehash_evict_if_full_def evict_def split: if_splits)

text \<open>With \<^verbatim>\<open>ch->judy\<close> NULL, neither has, get, put nor free returns.\<close>

lemma no_index_no_return:
  assumes "judy ch = None"
  shows "isl (cachehash_has ch k)" and "isl (cachehash_get ch k)"
    and "isl (cachehash_put ch k v)"
    and "cachehash_free fuel ch cb = Some (Inl NullDeref)"
proof -
  show "isl (cachehash_has ch k)"
    using assms by (auto simp: cachehash_has_def judy_get_def split: option.splits)
  show "isl (cachehash_get ch k)"
    using assms by (auto simp: cachehash_get_def judy_get_def split: option.splits)
  show "isl (cachehash_put ch k v)"
  proof (cases "cachehash_put ch k v")
    case (Inl e)
    then show ?thesis by simp
  next
    case (Inr r)
    obtain ch' cs where "cachehash_put ch k v = Inr (ch', cs)"
      using Inr by (cases r) simp
    from put_steps [OF this] obtain e ch1 ch2 ch3 where
      e: "cachehash_evict_if_full ch = Inr (e, ch1)" and
      u: "node_upd ch1 (end ch1)
          (\<lambda>x. x\<lparr>key := k, keylen := length (the k), data := v\<rparr>) = Inr ch2" and
      s: "use ch2 (end ch1) = Inr ch3" and
      j: "judy ch3 \<noteq> None"
      by blast
    from evict_if_full_no_index [OF assms e] node_upd_judy [OF u] use_judy [OF s] assms j
    show ?thesis by simp
  qed
  show "cachehash_free fuel ch cb = Some (Inl NullDeref)"
    using assms by (simp add: cachehash_free_def)
qed

lemma created_cache_never_answers:
  assumes "cachehash_init n cb = Inr ch"
  shows "isl (cachehash_has ch k) \<and> isl (cachehash_get ch k) \<and> isl (cachehash_put ch k v) \<and>
         cachehash_free fuel ch cb' = Some (Inl NullDeref)"
  using no_index_no_return [of ch] init_leaves_null [OF assms] by simp

text \<open>Also with the array in place, a lookup of a key it does not hold reads through NULL.\<close>

lemma miss_dereferences_null:
  assumes "bs \<noteq> []" and "judy ch = Some j" and "j bs = None"
  shows "cachehash_has ch (Some bs) = Inl NullDeref \<and>
         cachehash_get ch (Some bs) = Inl NullDeref"
  using assms by (simp add: cachehash_has_def cachehash_get_def judy_get_def JHSG_def)

text \<open>Without a stored callback, a put that returns has called nothing.\<close>

lemma put_calls_none:
  assumes "evict_cb ch = None" and "cachehash_put ch k v = Inr (ch', cs)"
  shows "cs = []"
proof -
  obtain bs where k: "k = Some bs" and bs: "bs \<noteq> []"
    using assms(2) by (cases k) (auto simp: cachehash_put_def split: if_splits)
  obtain e ch1 where e: "cachehash_evict_if_full ch = Inr (e, ch1)"
    using assms(2) k bs by (cases "cachehash_evict_if_full ch") (auto simp: cachehash_put_def)
  have "evict_cb ch1 = None"
    using e assms(1)
    by (auto simp: cachehash_evict_if_full_def evict_def JHSD_def Let_def bindE_Inr_iff
             dest!: node_upd_judy split: if_splits option.splits)
  then show ?thesis
    using assms(2) k bs e
    by (auto simp: cachehash_put_def Let_def bindE_Inr_iff JHSI_def
             split: option.splits if_splits)
qed

lemma run_full2:
  "\<exists>c. run full2 [Has (Some [1]), Get (Some [2]), EvictIfFull, Put (Some [3]) (Ext 30)] = Inr c"
  by (simp add: full2_def op_defs)

section \<open>evict\_if\_full on a cache that is not full\<close>

text \<open>
  C10. Whenever \<open>currsize < maxsize\<close>, \<^verbatim>\<open>cachehash_evict_if_full\<close> returns NULL
  (nothing to evict) and the state it leaves is the state it was given, in every field.
\<close>

theorem evict_if_full_not_full_noop:
  "currsize ch < maxsize ch \<Longrightarrow> cachehash_evict_if_full ch = Inr (Null, ch)"
  by (auto simp: cachehash_evict_if_full_def eviction_needed_def EVICTION_UNNEC_def)

theorem evict_if_full_not_full_noop_witness:
  "currsize fresh2 < maxsize fresh2 \<and> cachehash_evict_if_full fresh2 = Inr (Null, fresh2)"
proof -
  have h: "currsize fresh2 < maxsize fresh2"
    by (simp add: fresh2_def)
  show ?thesis
    using h evict_if_full_not_full_noop [OF h] by simp
qed

section \<open>The capacity invariant\<close>

text \<open>
  C7. A cache created with capacity \<open>n > 0\<close> starts with \<open>0 \<le> currsize \<le> maxsize = n\<close>,
  and from every state with \<open>0 < maxsize\<close> and \<open>currsize \<le> maxsize\<close>, every sequence of
  has, get, put and evict\_if\_full that returns leaves \<open>0 \<le> currsize \<le> maxsize\<close> and the
  capacity unchanged. Every prefix of a sequence is a sequence, so the bound holds after
  each operation.
\<close>

theorem capacity_invariant:
  "(cachehash_init n cb = Inr ch0 \<longrightarrow>
      0 < maxsize ch0 \<and> maxsize ch0 = n \<and> 0 \<le> currsize ch0 \<and> currsize ch0 \<le> maxsize ch0) \<and>
   (0 < maxsize ch \<and> currsize ch \<le> maxsize ch \<and> run ch ops = Inr ch' \<longrightarrow>
      0 \<le> currsize ch' \<and> currsize ch' \<le> maxsize ch' \<and> maxsize ch' = maxsize ch)"
  using init_sizes [of n cb ch0] run_sizes [of ch ops ch'] by auto

theorem capacity_invariant_witness:
  "cachehash_init 2 None = Inr fresh2 \<and> 0 < maxsize fresh2 \<and> currsize fresh2 \<le> maxsize fresh2 \<and>
   0 < maxsize full2 \<and> currsize full2 \<le> maxsize full2 \<and>
   (\<exists>c. run full2 [Has (Some [1]), Get (Some [2]), EvictIfFull, Put (Some [3]) (Ext 30)] = Inr c \<and>
        currsize c \<le> maxsize c \<and> maxsize c = 2)"
proof -
  obtain c where
    r: "run full2 [Has (Some [1]), Get (Some [2]), EvictIfFull, Put (Some [3]) (Ext 30)] = Inr c"
    using run_full2 by blast
  have h: "0 < maxsize full2 \<and> currsize full2 \<le> maxsize full2"
    by (simp add: full2_def)
  have m: "maxsize full2 = 2"
    by (simp add: full2_def)
  show ?thesis
    using capacity_invariant [of 2 None fresh2 full2
        "[Has (Some [1]), Get (Some [2]), EvictIfFull, Put (Some [3]) (Ext 30)]" c]
      r h m init_2 [of None]
    by auto
qed

section \<open>has does not change the state\<close>

text \<open>
  C9. Any number of calls of \<^verbatim>\<open>cachehash_has\<close> with a key, each of which returns, leave
  the whole state as it was: the array, every slot, \<^verbatim>\<open>start\<close>, \<^verbatim>\<open>end\<close> and the sizes.
  The slot that the next eviction takes is therefore the same before and after.
\<close>

theorem has_leaves_state_unchanged:
  "run ch (replicate n (Has k)) = Inr ch' \<Longrightarrow> ch' = ch"
  by (rule run_has)

theorem has_leaves_state_unchanged_witness:
  "run full2 (replicate 3 (Has (Some [1]))) = Inr full2"
proof -
  have "\<exists>c. run full2 (replicate 3 (Has (Some [1]))) = Inr c"
    by (simp add: full2_def op_defs eval_nat_numeral)
  then obtain c where r: "run full2 (replicate 3 (Has (Some [1]))) = Inr c"
    by blast
  from has_leaves_state_unchanged [OF r] r show ?thesis by simp
qed

section \<open>Round trip of put and get\<close>

text \<open>
  C1 says that a get (or has) of a key that was put and not evicted returns the value
  stored. In the code, the put on a created cache of two slots does not return: it reads
  \<^verbatim>\<open>*ch->judy\<close> through the NULL that \<^verbatim>\<open>cachehash_init\<close> left. With the array in
  place, the put returns, and the get and the has of the same key then read through the NULL
  that \<^verbatim>\<open>JHSG\<close> yields, since the put has not stored the array root back.
\<close>

theorem put_get_round_trip_fault:
  "session 2 None [Put (Some [1]) (Ext 10)] = Inl NullDeref \<and>
   bindE (session_indexed 2 None [Put (Some [1]) (Ext 10)])
     (\<lambda>c. cachehash_get c (Some [1])) = Inl NullDeref \<and>
   bindE (session_indexed 2 None [Put (Some [1]) (Ext 10)])
     (\<lambda>c. cachehash_has c (Some [1])) = Inl NullDeref"
  by (simp add: eval_defs)

section \<open>Delivery of the eviction callback\<close>

text \<open>
  C2 says that a put on a full cache calls the callback given at creation once, with the
  displaced value. In the code, \<^verbatim>\<open>cachehash_init\<close> with callback 42 leaves
  \<^verbatim>\<open>evict_cb\<close> NULL; a put on the full cache \<open>full2\<close> with that field displaces the value
  20 and calls nothing, where the same put with the callback stored calls it with 20; and
  the first put on the created cache does not return.
\<close>

theorem eviction_callback_dropped:
  "bindE (cachehash_init 2 (Some 42)) (\<lambda>ch. Inr (evict_cb ch)) = Inr None \<and>
   bindE (cachehash_init 2 (Some 42)) (\<lambda>ch.
     bindE (cachehash_put (full2\<lparr>evict_cb := evict_cb ch\<rparr>) (Some [3]) (Ext 30))
       (\<lambda>(c, cs). Inr cs)) = Inr [] \<and>
   bindE (cachehash_put (full2\<lparr>evict_cb := Some 42\<rparr>) (Some [3]) (Ext 30))
     (\<lambda>(c, cs). Inr cs) = Inr [(42, Ext 20)] \<and>
   session 2 (Some 42) [Put (Some [1]) (Ext 10)] = Inl NullDeref"
  by (simp add: eval_defs)

section \<open>Lookup of a key that is not present\<close>

text \<open>
  C3 says that has and get of a key that is not present return "absent" and do not fault.
  In the code, has and get on a created cache read through the NULL \<^verbatim>\<open>ch->judy\<close>; with
  the array in place, and on the full cache \<open>full2\<close> for the key 3 that it does not hold,
  they read through the NULL that \<^verbatim>\<open>JHSG\<close> yields for a missing key.
\<close>

theorem lookup_miss_faults:
  "bindE (cachehash_init 2 None) (\<lambda>ch. cachehash_has ch (Some [1])) = Inl NullDeref \<and>
   bindE (cachehash_init 2 None) (\<lambda>ch. cachehash_get ch (Some [1])) = Inl NullDeref \<and>
   bindE (cachehash_init 2 None) (\<lambda>ch. cachehash_has (with_index ch) (Some [1])) = Inl NullDeref \<and>
   bindE (cachehash_init 2 None) (\<lambda>ch. cachehash_get (with_index ch) (Some [1])) = Inl NullDeref \<and>
   cachehash_has full2 (Some [3]) = Inl NullDeref \<and>
   cachehash_get full2 (Some [3]) = Inl NullDeref"
  by (simp add: eval_defs)

section \<open>Release of the occupied slots by free\<close>

text \<open>
  C4 says that free calls the release callback once for each occupied slot. In the code,
  free on a created cache reads through the NULL \<^verbatim>\<open>ch->judy\<close>. With the array in place,
  after two puts into two slots, and likewise on \<open>full2\<close>, free with callback 9 calls it
  for the value 10 only: the loop \<^verbatim>\<open>while (n->next)\<close> ends at the last slot without
  visiting it, and the value 20 is not released.
\<close>

theorem free_skips_last_slot:
  "free_after 5 (session 2 None []) (Some 9) = Some (Inl NullDeref) \<and>
   free_after 5 (session_indexed 2 None [Put (Some [1]) (Ext 10), Put (Some [2]) (Ext 20)])
     (Some 9) = Some (Inr [(9, Ext 10)]) \<and>
   free_after 5 (Inr full2) (Some 9) = Some (Inr [(9, Ext 10)])"
  by (simp add: eval_defs eval_nat_numeral)

section \<open>Order of eviction\<close>

text \<open>
  C5 says that after the keys 1 to N were put into N slots, the put of a further key evicts
  key 1. In the code, with two slots, the first put does not return on a created cache. With
  the array in place the third put fails the assertion of \<^verbatim>\<open>evict\<close>, since no put has
  stored the array root back. After the two puts the last slot of the list, the one an
  eviction takes, holds key 2, and an eviction on that state with the array holding both
  keys yields the value 20 of key 2: \<^verbatim>\<open>use\<close> leaves the \<^verbatim>\<open>prev\<close> of the old first slot
  NULL, so the second put does not move its slot to the front. With three slots the last
  slot holds key 3 after three puts.
\<close>

theorem eviction_order_fault:
  "session 2 None [Put (Some [1]) (Ext 10), Put (Some [2]) (Ext 20), Put (Some [3]) (Ext 30)]
     = Inl NullDeref \<and>
   session_indexed 2 None
     [Put (Some [1]) (Ext 10), Put (Some [2]) (Ext 20), Put (Some [3]) (Ext 30)]
     = Inl AssertFail \<and>
   bindE (session_indexed 2 None [Put (Some [1]) (Ext 10), Put (Some [2]) (Ext 20)])
     (\<lambda>c. bindE (node_at c (end c)) (\<lambda>nd. Inr (key nd))) = Inr (Some [2]) \<and>
   bindE (session_indexed 2 None [Put (Some [1]) (Ext 10), Put (Some [2]) (Ext 20)])
     (\<lambda>c. bindE (cachehash_evict_if_full (c\<lparr>judy := Some [[1] \<mapsto> Ext 10, [2] \<mapsto> Ext 20]\<rparr>))
            (\<lambda>(v, c'). Inr v)) = Inr (Ext 20) \<and>
   bindE (session_indexed 3 None
            [Put (Some [1]) (Ext 10), Put (Some [2]) (Ext 20), Put (Some [3]) (Ext 30)])
     (\<lambda>c. bindE (node_at c (end c)) (\<lambda>nd. Inr (key nd))) = Inr (Some [3])"
  by (simp add: eval_defs)

section \<open>Promotion by get\<close>

text \<open>
  C6 says that after the keys 1 to N were put into N slots and key 1 was read with get, the
  put of a further key evicts key 2. In the code, with two slots, the sequence does not
  return on a created cache, and with the array in place the get reads through NULL, as the
  array holds no key. With three slots, after three puts and with the array then mapping
  each key to its slot, the get of key 1 returns and the eviction that follows yields the
  value 30 of key 3.
\<close>

theorem promotion_fault:
  "session 2 None
     [Put (Some [1]) (Ext 10), Put (Some [2]) (Ext 20), Get (Some [1]), Put (Some [3]) (Ext 30)]
     = Inl NullDeref \<and>
   session_indexed 2 None
     [Put (Some [1]) (Ext 10), Put (Some [2]) (Ext 20), Get (Some [1]), Put (Some [3]) (Ext 30)]
     = Inl NullDeref \<and>
   bindE (session_indexed 3 None
            [Put (Some [1]) (Ext 10), Put (Some [2]) (Ext 20), Put (Some [3]) (Ext 30)])
     (\<lambda>c. bindE (run (c\<lparr>judy := Some [[1] \<mapsto> NodeP 2, [2] \<mapsto> NodeP 1, [3] \<mapsto> NodeP 0]\<rparr>)
                   [Get (Some [1])])
            (\<lambda>c'. bindE (cachehash_evict_if_full c') (\<lambda>(v, c''). Inr v))) = Inr (Ext 30)"
  by (simp add: eval_defs)

section \<open>Put of a key that is present\<close>

text \<open>
  C8 says that a put of a key that is present aborts on the assertion. In the code, the
  first of two puts of key 1 does not return on a created cache (a read through NULL, no
  assertion). With the array in place both puts return: two slots then hold key 1 and
  \<^verbatim>\<open>currsize\<close> is 2. The assertion does fail on \<open>full2\<close>, whose array holds key 1.
\<close>

theorem duplicate_put_not_detected:
  "session 2 None [Put (Some [1]) (Ext 10), Put (Some [1]) (Ext 20)] = Inl NullDeref \<and>
   bindE (session_indexed 2 None [Put (Some [1]) (Ext 10), Put (Some [1]) (Ext 20)])
     (\<lambda>c. Inr (map key (malloced c), currsize c)) = Inr ([Some [1], Some [1]], 2) \<and>
   cachehash_put full2 (Some [1]) (Ext 30) = Inl AssertFail"
  by (simp add: eval_defs)

end
